theory Spec2Isabelle
  imports Main
begin

section \<open>Conway's Game of Life: the engine of game.js\<close>

text \<open>
  The class \<open>GameOfLife\<close> of game.js is embedded field by field. Numbers are
  mathematical integers (the script only counts, and JavaScript numbers are exact far
  beyond any count it reaches). An array is the partial map of its integer-keyed
  properties: reading a missing index gives \<open>undefined\<close> (here \<open>None\<close>), writing
  any index stores the value, and the script never reads \<open>length\<close>. Indexing
  \<open>undefined\<close> throws a \<open>TypeError\<close>, as does using the \<open>null\<close> that
  \<open>querySelector\<close> returns when no element matches.
\<close>

subsection \<open>Values, arrays, exceptions\<close>

datatype error = TypeError

type_synonym cells = "int \<Rightarrow> bool option"
type_synonym grid = "int \<Rightarrow> cells option"

text \<open>Truthiness of a cell value: \<open>undefined\<close> and \<open>false\<close> are falsy.\<close>

definition truthy :: "bool option \<Rightarrow> bool" where
  "truthy v = (case v of None \<Rightarrow> False | Some b \<Rightarrow> b)"

text \<open>\<open>g[row][col]\<close> as an expression, and \<open>g[row][col] = v\<close>.\<close>

definition read_cell :: "grid \<Rightarrow> int \<Rightarrow> int \<Rightarrow> error + bool option" where
  "read_cell g row col =
     (case g row of None \<Rightarrow> Inl TypeError | Some r \<Rightarrow> Inr (r col))"

definition write_cell :: "grid \<Rightarrow> int \<Rightarrow> int \<Rightarrow> bool \<Rightarrow> error + grid" where
  "write_cell g row col v =
     (case g row of None \<Rightarrow> Inl TypeError | Some r \<Rightarrow> Inr (g(row \<mapsto> r(col \<mapsto> v))))"

subsection \<open>The engine and its host\<close>

text \<open>
  The first seven fields are the fields the constructor assigns. The last two are the
  host's timer table, which \<open>setInterval\<close> and \<open>clearInterval\<close> act on: the
  repeating timers that are armed (handle and delay in milliseconds, oldest first) and
  the next handle the host hands out. What the page displays is written by the script
  and never read back, so of the document only the existence of the looked-up elements
  is kept (see \<open>cellElement\<close>).
\<close>

record engine =
  gridSize :: int
  currentGrid :: grid
  nextGrid :: grid
  isRunning :: bool
  generation :: int
  intervalId :: "nat option"
  speed :: int
  armed :: "(nat \<times> int) list"
  handles :: nat

text \<open>A method that mutates: the exception thrown, if any, and the state it leaves.\<close>

type_synonym 's command = "'s \<Rightarrow> error option \<times> 's"

text \<open>
  \<open>for (let i = i0; i < n; i++) body\<close>, where an exception thrown by the body leaves
  the loop with the state reached so far. The bound is passed once: the loops of the
  script run up to \<open>this.gridSize\<close>, which no method assigns after the constructor.
\<close>

function for_loop :: "int \<Rightarrow> int \<Rightarrow> (int \<Rightarrow> 's command) \<Rightarrow> 's command" where
  "for_loop i n body s =
     (if i < n then
        (case body i s of
           (None, s') \<Rightarrow> for_loop (i + 1) n body s'
         | (Some err, s') \<Rightarrow> (Some err, s'))
      else (None, s))"
  by pat_completeness auto
termination
  by (relation "measure (\<lambda>(i, n, body, s). nat (n - i))") auto

declare for_loop.simps [simp del]

definition setCurrent :: "int \<Rightarrow> int \<Rightarrow> bool \<Rightarrow> engine command" where
  "setCurrent row col v e =
     (case write_cell (currentGrid e) row col v of
        Inl err \<Rightarrow> (Some err, e)
      | Inr g \<Rightarrow> (None, e\<lparr>currentGrid := g\<rparr>))"

definition setNext :: "int \<Rightarrow> int \<Rightarrow> bool \<Rightarrow> engine command" where
  "setNext row col v e =
     (case write_cell (nextGrid e) row col v of
        Inl err \<Rightarrow> (Some err, e)
      | Inr g \<Rightarrow> (None, e\<lparr>nextGrid := g\<rparr>))"

subsection \<open>countLiveCells, initializeGrids\<close>

definition countLiveCells :: "engine \<Rightarrow> error + int" where
  "countLiveCells e =
     (case for_loop 0 (gridSize e) (\<lambda>row.
             for_loop 0 (gridSize e) (\<lambda>col count.
               case read_cell (currentGrid e) row col of
                 Inl err \<Rightarrow> (Some err, count)
               | Inr v \<Rightarrow> if truthy v then (None, count + 1) else (None, count))) 0 of
        (None, count) \<Rightarrow> Inr count
      | (Some err, _) \<Rightarrow> Inl err)"

definition initializeGrids :: "engine command" where
  "initializeGrids e =
     for_loop 0 (gridSize e) (\<lambda>row e1.
         for_loop 0 (gridSize e) (\<lambda>col e2.
             case setCurrent row col False e2 of
               (None, e3) \<Rightarrow> setNext row col False e3
             | (Some err, e3) \<Rightarrow> (Some err, e3))
           (e1\<lparr>currentGrid := (currentGrid e1)(row \<mapsto> Map.empty),
                nextGrid := (nextGrid e1)(row \<mapsto> Map.empty)\<rparr>))
       (e\<lparr>currentGrid := Map.empty, nextGrid := Map.empty\<rparr>)"

subsection \<open>The display\<close>

text \<open>
  \<open>createDOMGrid\<close> gives the page one cell element for each row and column below
  \<open>gridSize\<close>, so \<open>querySelector\<close> finds an element exactly for those; the
  controls and counters that \<open>getElementById\<close> looks up belong to the page itself.
\<close>

definition cellElement :: "engine \<Rightarrow> int \<Rightarrow> int \<Rightarrow> bool" where
  "cellElement e row col \<longleftrightarrow> 0 \<le> row \<and> row < gridSize e \<and> 0 \<le> col \<and> col < gridSize e"

definition updateCellDisplay :: "engine \<Rightarrow> int \<Rightarrow> int \<Rightarrow> error option" where
  "updateCellDisplay e row col =
     (case read_cell (currentGrid e) row col of
        Inl err \<Rightarrow> Some err
      | Inr v \<Rightarrow> if cellElement e row col then None else Some TypeError)"

definition updateDisplay :: "engine command" where
  "updateDisplay e =
     (case for_loop 0 (gridSize e) (\<lambda>row.
             for_loop 0 (gridSize e) (\<lambda>col u. (updateCellDisplay e row col, u))) () of
        (Some err, _) \<Rightarrow> (Some err, e)
      | (None, _) \<Rightarrow>
          (case countLiveCells e of Inl err \<Rightarrow> (Some err, e) | Inr _ \<Rightarrow> (None, e)))"

subsection \<open>toggleCell, countLiveNeighbors, calculateNextGeneration, step\<close>

definition toggleCell :: "int \<Rightarrow> int \<Rightarrow> engine command" where
  "toggleCell row col e =
     (case read_cell (currentGrid e) row col of
        Inl err \<Rightarrow> (Some err, e)
      | Inr v \<Rightarrow>
          (case setCurrent row col (\<not> truthy v) e of
             (Some err, e') \<Rightarrow> (Some err, e')
           | (None, e') \<Rightarrow> (updateCellDisplay e' row col, e')))"

definition countLiveNeighbors :: "engine \<Rightarrow> int \<Rightarrow> int \<Rightarrow> error + int" where
  "countLiveNeighbors e row col =
     (case for_loop (- 1) 2 (\<lambda>deltaRow.
             for_loop (- 1) 2 (\<lambda>deltaCol count.
               if deltaRow = 0 \<and> deltaCol = 0 then (None, count)
               else
                 let neighborRow = row + deltaRow; neighborCol = col + deltaCol in
                 if neighborRow \<ge> 0 \<and> neighborRow < gridSize e \<and>
                    neighborCol \<ge> 0 \<and> neighborCol < gridSize e
                 then
                   (case read_cell (currentGrid e) neighborRow neighborCol of
                      Inl err \<Rightarrow> (Some err, count)
                    | Inr v \<Rightarrow> if truthy v then (None, count + 1) else (None, count))
                 else (None, count))) 0 of
        (None, count) \<Rightarrow> Inr count
      | (Some err, _) \<Rightarrow> Inl err)"

definition calculateNextGeneration :: "engine command" where
  "calculateNextGeneration e0 =
     for_loop 0 (gridSize e0) (\<lambda>row.
       for_loop 0 (gridSize e0) (\<lambda>col e.
         case countLiveNeighbors e row col of
           Inl err \<Rightarrow> (Some err, e)
         | Inr liveNeighbors \<Rightarrow>
             (case read_cell (currentGrid e) row col of
                Inl err \<Rightarrow> (Some err, e)
              | Inr isAlive \<Rightarrow>
                  if truthy isAlive then
                    (if liveNeighbors < 2 then setNext row col False e
                     else if liveNeighbors = 2 \<or> liveNeighbors = 3 then setNext row col True e
                     else setNext row col False e)
                  else
                    (if liveNeighbors = 3 then setNext row col True e
                     else setNext row col False e)))) e0"

definition step :: "engine command" where
  "step e =
     (case calculateNextGeneration e of
        (Some err, e') \<Rightarrow> (Some err, e')
      | (None, e') \<Rightarrow>
          updateDisplay (e'\<lparr>currentGrid := nextGrid e', nextGrid := currentGrid e',
                            generation := generation e' + 1\<rparr>))"

subsection \<open>Timers: start, pause, toggleStartPause, setSpeed\<close>

text \<open>
  The host's \<open>setInterval\<close> arms a repeating timer under a handle no timer has had
  before; \<open>clearInterval\<close> disarms the timer with the given handle, and does nothing
  for \<open>null\<close> or a handle that is not armed.
\<close>

definition setInterval :: "int \<Rightarrow> engine \<Rightarrow> nat \<times> engine" where
  "setInterval interval e =
     (handles e, e\<lparr>armed := armed e @ [(handles e, interval)], handles := Suc (handles e)\<rparr>)"

definition clearInterval :: "nat option \<Rightarrow> engine \<Rightarrow> engine" where
  "clearInterval h e =
     (case h of
        None \<Rightarrow> e
      | Some i \<Rightarrow> e\<lparr>armed := filter (\<lambda>t. fst t \<noteq> i) (armed e)\<rparr>)"

definition start :: "engine command" where
  "start e =
     (if isRunning e then (None, e)
      else
        let e1 = e\<lparr>isRunning := True\<rparr>;
            interval = max 50 (1000 - (speed e1 - 1) * 45);
            (h, e2) = setInterval interval e1
        in (None, e2\<lparr>intervalId := Some h\<rparr>))"

definition pause :: "engine command" where
  "pause e =
     (if \<not> isRunning e then (None, e)
      else
        let e1 = e\<lparr>isRunning := False\<rparr>;
            e2 = clearInterval (intervalId e1) e1
        in (None, e2\<lparr>intervalId := None\<rparr>))"

definition toggleStartPause :: "engine command" where
  "toggleStartPause e = (if isRunning e then pause e else start e)"

definition setSpeed :: "int \<Rightarrow> engine command" where
  "setSpeed newSpeed e =
     (let e1 = e\<lparr>speed := newSpeed\<rparr> in
      if isRunning e1 then
        (case pause e1 of
           (Some err, e2) \<Rightarrow> (Some err, e2)
         | (None, e2) \<Rightarrow> start e2)
      else (None, e1))"

subsection \<open>clear, randomize, the constructor\<close>

definition clear :: "engine command" where
  "clear e =
     (case pause e of
        (Some err, e1) \<Rightarrow> (Some err, e1)
      | (None, e1) \<Rightarrow>
          (case initializeGrids e1 of
             (Some err, e2) \<Rightarrow> (Some err, e2)
           | (None, e2) \<Rightarrow> updateDisplay (e2\<lparr>generation := 0\<rparr>)))"

text \<open>
  \<open>randomize\<close> takes the outcomes of its draws as a parameter: \<open>below row col\<close> is
  the value of \<open>Math.random() < 0.3\<close> when the loop visits that cell.
\<close>

definition randomize :: "(int \<Rightarrow> int \<Rightarrow> bool) \<Rightarrow> engine command" where
  "randomize below e =
     (case pause e of
        (Some err, e1) \<Rightarrow> (Some err, e1)
      | (None, e1) \<Rightarrow>
          (case for_loop 0 (gridSize e1) (\<lambda>row.
                  for_loop 0 (gridSize e1) (\<lambda>col. setCurrent row col (below row col))) e1 of
             (Some err, e2) \<Rightarrow> (Some err, e2)
           | (None, e2) \<Rightarrow> updateDisplay (e2\<lparr>generation := 0\<rparr>)))"

text \<open>
  \<open>new GameOfLife(gridSize)\<close>, on a page where the engine has armed no timer yet.
  Building the page's cells, binding the handlers and choosing the theme touch no field
  of the engine.
\<close>

definition constructor :: "int \<Rightarrow> error option \<times> engine" where
  "constructor n =
     (case initializeGrids
             \<lparr>gridSize = n, currentGrid = Map.empty, nextGrid = Map.empty,
              isRunning = False, generation = 0, intervalId = None, speed = 5,
              armed = [], handles = 0\<rparr> of
        (Some err, e) \<Rightarrow> (Some err, e)
      | (None, e) \<Rightarrow> updateDisplay e)"


section \<open>What the claims speak about\<close>

subsection \<open>Cells, bounds and valid engines\<close>

text \<open>
  The value at a position of a grid, \<open>undefined\<close> when the row or the cell is
  missing, and whether the current grid holds a live cell there.
\<close>

definition cell_at :: "grid \<Rightarrow> int \<Rightarrow> int \<Rightarrow> bool option" where
  "cell_at g row col = (case g row of None \<Rightarrow> None | Some r \<Rightarrow> r col)"

definition alive :: "engine \<Rightarrow> int \<Rightarrow> int \<Rightarrow> bool" where
  "alive e row col = truthy (cell_at (currentGrid e) row col)"

definition in_bounds :: "engine \<Rightarrow> int \<Rightarrow> int \<Rightarrow> bool" where
  "in_bounds e row col \<longleftrightarrow> 0 \<le> row \<and> row < gridSize e \<and> 0 \<le> col \<and> col < gridSize e"

text \<open>
  A grid is well formed for size \<open>n\<close> when each of its first \<open>n\<close> rows exists and
  holds a boolean in each of its first \<open>n\<close> cells. An engine is valid when both of its
  buffers are.
\<close>

definition grid_ok :: "int \<Rightarrow> grid \<Rightarrow> bool" where
  "grid_ok n g =
     list_all (\<lambda>row. case g row of
                 None \<Rightarrow> False
               | Some r \<Rightarrow> list_all (\<lambda>col. r col \<noteq> None) [0..n - 1]) [0..n - 1]"

definition valid :: "engine \<Rightarrow> bool" where
  "valid e \<longleftrightarrow> grid_ok (gridSize e) (currentGrid e) \<and> grid_ok (gridSize e) (nextGrid e)"

text \<open>The contents of a grid of size \<open>n\<close>: its \<open>n\<close> rows of \<open>n\<close> cells.\<close>

definition grid_cells :: "int \<Rightarrow> grid \<Rightarrow> bool option list list" where
  "grid_cells n g = map (\<lambda>row. map (\<lambda>col. cell_at g row col) [0..n - 1]) [0..n - 1]"

text \<open>The number of live cells of the current grid, row by row.\<close>

definition live_count :: "engine \<Rightarrow> int" where
  "live_count e =
     (\<Sum>row\<leftarrow>[0..gridSize e - 1]. \<Sum>col\<leftarrow>[0..gridSize e - 1]. if alive e row col then 1 else 0)"

subsection \<open>The neighbour count in the specification's words\<close>

text \<open>
  The eight adjacent positions are all combinations of row and column offsets \<open>-1\<close>,
  \<open>0\<close>, \<open>1\<close> except the cell itself; a position outside the grid counts as dead.
\<close>

definition adjacent :: "(int \<times> int) list" where
  "adjacent = [(- 1, - 1), (- 1, 0), (- 1, 1), (0, - 1), (0, 1), (1, - 1), (1, 0), (1, 1)]"

definition live_adjacent :: "engine \<Rightarrow> int \<Rightarrow> int \<Rightarrow> int" where
  "live_adjacent e row col =
     int (length (filter (\<lambda>(dr, dc). in_bounds e (row + dr) (col + dc) \<and>
                                      alive e (row + dr) (col + dc)) adjacent))"

subsection \<open>Conway's rule in the specification's words\<close>

text \<open>
  \<open>conway_rule was k now\<close>: a cell that was alive or dead, with \<open>k\<close> live
  neighbours, is now alive or dead as the rule demands.
\<close>

definition conway_rule :: "bool \<Rightarrow> int \<Rightarrow> bool \<Rightarrow> bool" where
  "conway_rule was k now \<longleftrightarrow>
     (was \<and> k < 2 \<longrightarrow> \<not> now) \<and>
     (was \<and> (k = 2 \<or> k = 3) \<longrightarrow> now) \<and>
     (was \<and> k > 3 \<longrightarrow> \<not> now) \<and>
     (\<not> was \<and> k = 3 \<longrightarrow> now) \<and>
     (\<not> was \<and> k \<noteq> 3 \<longrightarrow> \<not> now)"

subsection \<open>Timers and sequences of operations\<close>

text \<open>
  The engine's handle and the host's timer table agree: no handle, not running and no
  timer armed; or a handle, running, and exactly the timer with that handle armed.
\<close>

definition timer_ok :: "engine \<Rightarrow> bool" where
  "timer_ok e =
     (case intervalId e of
        None \<Rightarrow> \<not> isRunning e \<and> armed e = []
      | Some h \<Rightarrow> isRunning e \<and> map fst (armed e) = [h])"

text \<open>
  The operations a host can invoke on an engine, and what a sequence of them leaves: an
  exception ends the handler that invoked the operation, and the next operation starts
  from the state the failed one left.
\<close>

datatype op =
  Start | Pause | ToggleStartPause | Step | Clear
  | Randomize "int \<Rightarrow> int \<Rightarrow> bool" | SetSpeed int | ToggleCell int int

fun exec :: "op \<Rightarrow> engine command" where
  "exec Start = start"
| "exec Pause = pause"
| "exec ToggleStartPause = toggleStartPause"
| "exec Step = step"
| "exec Clear = clear"
| "exec (Randomize below) = randomize below"
| "exec (SetSpeed newSpeed) = setSpeed newSpeed"
| "exec (ToggleCell row col) = toggleCell row col"

fun run :: "op list \<Rightarrow> engine \<Rightarrow> engine" where
  "run [] e = e"
| "run (x # xs) e = run xs (snd (exec x e))"

subsection \<open>Closed forms of the loops\<close>

text \<open>What one pass of the inner loop of \<open>countLiveNeighbors\<close> adds to the count.\<close>

definition counted :: "engine \<Rightarrow> int \<Rightarrow> int \<Rightarrow> int \<Rightarrow> int \<Rightarrow> int" where
  "counted e row col dr dc =
     (if dr = 0 \<and> dc = 0 then 0
      else if in_bounds e (row + dr) (col + dc) \<and> alive e (row + dr) (col + dc) then 1 else 0)"

text \<open>The boolean the rule of \<open>calculateNextGeneration\<close> writes for a cell.\<close>

definition decide :: "engine \<Rightarrow> int \<Rightarrow> int \<Rightarrow> bool" where
  "decide e row col =
     (if alive e row col then live_adjacent e row col = 2 \<or> live_adjacent e row col = 3
      else live_adjacent e row col = 3)"

text \<open>
  A row whose first \<open>k\<close> cells have been overwritten with \<open>f\<close>, and a grid
  whose first \<open>j\<close> rows have had their first \<open>n\<close> cells overwritten.
\<close>

definition fill_cells :: "int \<Rightarrow> (int \<Rightarrow> bool) \<Rightarrow> cells \<Rightarrow> cells" where
  "fill_cells k f r = (\<lambda>col. if 0 \<le> col \<and> col < k then Some (f col) else r col)"

definition fill_rows :: "int \<Rightarrow> int \<Rightarrow> (int \<Rightarrow> int \<Rightarrow> bool) \<Rightarrow> grid \<Rightarrow> grid" where
  "fill_rows j n f g =
     (\<lambda>row. if 0 \<le> row \<and> row < j
            then (case g row of None \<Rightarrow> None | Some r \<Rightarrow> Some (fill_cells n (f row) r))
            else g row)"

text \<open>
  The grid \<open>initializeGrids\<close> has built after \<open>j\<close> rows: each of the rows
  \<open>0\<close> to \<open>j - 1\<close> is a fresh array holding \<open>false\<close> in its first \<open>n\<close>
  cells, and there is no other row.
\<close>

definition dead_grid :: "int \<Rightarrow> int \<Rightarrow> grid" where
  "dead_grid j n =
     (\<lambda>row. if 0 \<le> row \<and> row < j then Some (fill_cells n (\<lambda>_. False) Map.empty) else None)"

subsection \<open>Example engines\<close>

text \<open>A 2 x 2 engine after clicking the cells (0, 1) and (1, 1).\<close>

definition corner_engine :: engine where
  "corner_engine = snd (toggleCell 1 1 (snd (toggleCell 0 1 (snd (constructor 2)))))"

text \<open>A 3 x 3 engine after clicking the middle column: a vertical blinker.\<close>

definition blinker_engine :: engine where
  "blinker_engine =
     snd (toggleCell 2 1 (snd (toggleCell 1 1 (snd (toggleCell 0 1 (snd (constructor 3)))))))"

text \<open>
  A 2 x 2 engine after a click on cell (0, 1), two clicks on start, a move of the speed
  slider to 10 and one tick of the timer.
\<close>

definition busy_engine :: engine where
  "busy_engine = run [ToggleCell 0 1, Start, Start, SetSpeed 10, Step] (snd (constructor 2))"

text \<open>A 4 x 4 engine holding the 2 x 2 block, a still life, in its middle.\<close>

definition block_engine :: engine where
  "block_engine =
     run [ToggleCell 1 1, ToggleCell 1 2, ToggleCell 2 1, ToggleCell 2 2] (snd (constructor 4))"

section \<open>Properties\<close>

subsection \<open>Loops\<close>

lemma for_loop_done: "\<not> i < n \<Longrightarrow> for_loop i n body s = (None, s)"
  by (simp add: for_loop.simps)

lemma for_loop_next:
  "i < n \<Longrightarrow> body i s = (None, s') \<Longrightarrow> for_loop i n body s = for_loop (i + 1) n body s'"
  by (subst for_loop.simps) simp

lemma for_loop_throw:
  "i < n \<Longrightarrow> body i s = (Some err, s') \<Longrightarrow> for_loop i n body s = (Some err, s')"
  by (subst for_loop.simps) simp

text \<open>
  A loop whose body never throws and carries an invariant from each index to the next
  ends normally, in a state where the invariant holds at the final index.
\<close>

lemma for_loop_invariant:
  assumes start: "I i s"
    and body: "\<And>j t. i \<le> j \<Longrightarrow> j < n \<Longrightarrow> I j t \<Longrightarrow> \<exists>t'. body j t = (None, t') \<and> I (j + 1) t'"
  shows "\<exists>s'. for_loop i n body s = (None, s') \<and> I (max i n) s'"
  using start body
proof (induction "nat (n - i)" arbitrary: i s)
  case 0
  then have "\<not> i < n" by simp
  with 0 show ?case by (simp add: for_loop_done max_def)
next
  case (Suc k)
  then have lt: "i < n" by linarith
  from Suc.prems(2) [OF order_refl lt Suc.prems(1)]
  obtain t where t: "body i s = (None, t)" "I (i + 1) t" by blast
  have "k = nat (n - (i + 1))" using Suc.hyps(2) by linarith
  moreover have "\<And>j u. i + 1 \<le> j \<Longrightarrow> j < n \<Longrightarrow> I j u \<Longrightarrow> \<exists>t'. body j u = (None, t') \<and> I (j + 1) t'"
    using Suc.prems(2) by simp
  ultimately obtain s' where "for_loop (i + 1) n body t = (None, s')" "I (max (i + 1) n) s'"
    using Suc.hyps(1) [of "i + 1" t] t(2) by blast
  with lt t(1) show ?case by (simp add: for_loop_next max_def)
qed

text \<open>A loop that adds \<open>f j\<close> to a counter at each index adds up \<open>f\<close> over its range.\<close>

lemma for_loop_sum:
  fixes f :: "int \<Rightarrow> int"
  assumes body: "\<And>j c. i \<le> j \<Longrightarrow> j < n \<Longrightarrow> body j c = (None, c + f j)"
  shows "for_loop i n body c = (None, c + sum_list (map f [i..n - 1]))"
proof -
  define I where "I j c' \<longleftrightarrow> c' = c + sum_list (map f [i..j - 1])" for j c'
  have "I i c" by (simp add: I_def)
  moreover have "\<exists>t'. body j t = (None, t') \<and> I (j + 1) t'" if "i \<le> j" "j < n" "I j t" for j t
    using that body [of j t] by (simp add: I_def upto_rec2 [of i j])
  ultimately obtain s' where s': "for_loop i n body c = (None, s')" "I (max i n) s'"
    using for_loop_invariant [of I i c n body] by blast
  show ?thesis
  proof (cases "i < n")
    case True
    with s' show ?thesis by (simp add: I_def max_def)
  next
    case False
    then show ?thesis by (simp add: for_loop_done)
  qed
qed

subsection \<open>Well-formed grids\<close>

lemma case_Some_iff:
  "(case x of None \<Rightarrow> False | Some r \<Rightarrow> P r) \<longleftrightarrow> (\<exists>r. x = Some r \<and> P r)"
  by (cases x) simp_all

lemma grid_ok_iff:
  "grid_ok n g \<longleftrightarrow>
     (\<forall>row. 0 \<le> row \<and> row < n \<longrightarrow>
        (\<exists>r. g row = Some r \<and> (\<forall>col. 0 \<le> col \<and> col < n \<longrightarrow> r col \<noteq> None)))"
proof -
  have range: "x \<in> {0..n - 1} \<longleftrightarrow> 0 \<le> x \<and> x < n" for x :: int
    by auto
  have "grid_ok n g \<longleftrightarrow>
          (\<forall>row. 0 \<le> row \<and> row < n \<longrightarrow>
             (case g row of None \<Rightarrow> False
              | Some r \<Rightarrow> \<forall>col. 0 \<le> col \<and> col < n \<longrightarrow> r col \<noteq> None))"
    by (simp add: grid_ok_def list_all_iff Ball_def range cong: option.case_cong)
  also have "\<dots> \<longleftrightarrow>
          (\<forall>row. 0 \<le> row \<and> row < n \<longrightarrow>
             (\<exists>r. g row = Some r \<and> (\<forall>col. 0 \<le> col \<and> col < n \<longrightarrow> r col \<noteq> None)))"
    by (simp add: case_Some_iff)
  finally show ?thesis .
qed

subsection \<open>countLiveNeighbors\<close>

lemma upto_m1_1: "[- 1..1] = [- 1, 0, 1 :: int]"
  by (simp add: upto.simps)

lemma countLiveNeighbors_sum:
  assumes ok: "grid_ok (gridSize e) (currentGrid e)"
  shows "countLiveNeighbors e row col =
           Inr (\<Sum>dr\<leftarrow>[- 1, 0, 1]. \<Sum>dc\<leftarrow>[- 1, 0, 1]. counted e row col dr dc)"
proof -
  have one: "(if dr = 0 \<and> dc = 0 then (None, c)
               else
                 let neighborRow = row + dr; neighborCol = col + dc in
                 if neighborRow \<ge> 0 \<and> neighborRow < gridSize e \<and>
                    neighborCol \<ge> 0 \<and> neighborCol < gridSize e
                 then
                   (case read_cell (currentGrid e) neighborRow neighborCol of
                      Inl err \<Rightarrow> (Some err, c)
                    | Inr v \<Rightarrow> if truthy v then (None, c + 1) else (None, c))
                 else (None, c)) = (None, c + counted e row col dr dc)" for dr dc c
    using ok [unfolded grid_ok_iff]
    by (auto simp: counted_def in_bounds_def alive_def cell_at_def read_cell_def Let_def
        split: option.splits)
  show ?thesis
    unfolding countLiveNeighbors_def
    by (simp add: one for_loop_sum upto_m1_1)
qed

lemma count_filter_sum:
  "int (length (filter P xs)) = (\<Sum>x\<leftarrow>xs. if P x then 1 else 0)"
  by (induction xs) simp_all

lemma counted_sum_live_adjacent:
  "(\<Sum>dr\<leftarrow>[- 1, 0, 1]. \<Sum>dc\<leftarrow>[- 1, 0, 1]. counted e row col dr dc) = live_adjacent e row col"
  unfolding live_adjacent_def count_filter_sum
  by (simp add: adjacent_def counted_def add.assoc split del: if_split)

lemma live_adjacent_bounds: "0 \<le> live_adjacent e row col \<and> live_adjacent e row col \<le> 8"
proof -
  have "length (filter P adjacent) \<le> 8" for P :: "int \<times> int \<Rightarrow> bool"
    using length_filter_le [of P adjacent] by (simp add: adjacent_def)
  then show ?thesis by (simp add: live_adjacent_def)
qed

lemma countLiveNeighbors_eq:
  "grid_ok (gridSize e) (currentGrid e) \<Longrightarrow>
   countLiveNeighbors e row col = Inr (live_adjacent e row col)"
  by (simp only: countLiveNeighbors_sum counted_sum_live_adjacent)

text \<open>
  Claim C2. On an engine whose current grid is well formed, \<open>countLiveNeighbors\<close>
  returns normally, for every row and column, the number of live cells among the eight
  adjacent positions that lie inside the grid, and that number is between 0 and 8.
  \<open>countLiveNeighbors\<close> returns a value only: it has no engine state to change.
\<close>

theorem countLiveNeighbors_counts_adjacent:
  assumes "grid_ok (gridSize e) (currentGrid e)"
  shows "countLiveNeighbors e row col = Inr (live_adjacent e row col) \<and>
         0 \<le> live_adjacent e row col \<and> live_adjacent e row col \<le> 8"
  using assms by (simp add: countLiveNeighbors_eq live_adjacent_bounds)

theorem countLiveNeighbors_counts_adjacent_witness:
  "grid_ok (gridSize corner_engine) (currentGrid corner_engine) \<and>
   countLiveNeighbors corner_engine 0 0 = Inr 2 \<and> live_adjacent corner_engine 0 0 = 2"
proof -
  have ok: "grid_ok (gridSize corner_engine) (currentGrid corner_engine)"
    by code_simp
  have "live_adjacent corner_engine 0 0 = 2"
    by code_simp
  with ok countLiveNeighbors_counts_adjacent [OF ok, of 0 0] show ?thesis
    by simp
qed

subsection \<open>calculateNextGeneration and step\<close>

text \<open>A loop whose states follow a closed form \<open>F\<close> ends in \<open>F n\<close>.\<close>

lemma for_loop_closed:
  assumes body: "\<And>j. i \<le> j \<Longrightarrow> j < n \<Longrightarrow> body j (F j) = (None, F (j + 1))"
    and le: "i \<le> n"
  shows "for_loop i n body (F i) = (None, F n)"
proof -
  have "\<exists>s'. for_loop i n body (F i) = (None, s') \<and> s' = F (max i n)"
    by (rule for_loop_invariant [where I = "\<lambda>j t. t = F j"]) (simp_all add: body)
  with le show ?thesis by (simp add: max_def)
qed

lemma fill_cells_0: "fill_cells 0 f r = r"
  by (auto simp: fill_cells_def fun_eq_iff)

lemma fill_cells_step: "0 \<le> k \<Longrightarrow> (fill_cells k f r)(k \<mapsto> f k) = fill_cells (k + 1) f r"
  by (auto simp: fill_cells_def fun_eq_iff)

lemma fill_rows_0: "fill_rows 0 n f g = g"
  by (auto simp: fill_rows_def fun_eq_iff)

lemma fill_rows_step:
  "0 \<le> j \<Longrightarrow> g j = Some r \<Longrightarrow>
   (fill_rows j n f g)(j \<mapsto> fill_cells n (f j) r) = fill_rows (j + 1) n f g"
  by (auto simp: fill_rows_def fun_eq_iff)

lemma fill_rows_at: "fill_rows j n f g j = g j"
  by (simp add: fill_rows_def)

lemma calc_body:
  assumes ok: "grid_ok (gridSize e) (currentGrid e)"
    and row: "0 \<le> row" "row < gridSize e"
    and g: "g row = Some r"
  shows "(case countLiveNeighbors (e\<lparr>nextGrid := g\<rparr>) row col of
           Inl err \<Rightarrow> (Some err, e\<lparr>nextGrid := g\<rparr>)
         | Inr liveNeighbors \<Rightarrow>
             (case read_cell (currentGrid (e\<lparr>nextGrid := g\<rparr>)) row col of
                Inl err \<Rightarrow> (Some err, e\<lparr>nextGrid := g\<rparr>)
              | Inr isAlive \<Rightarrow>
                  if truthy isAlive then
                    (if liveNeighbors < 2 then setNext row col False (e\<lparr>nextGrid := g\<rparr>)
                     else if liveNeighbors = 2 \<or> liveNeighbors = 3 then setNext row col True (e\<lparr>nextGrid := g\<rparr>)
                     else setNext row col False (e\<lparr>nextGrid := g\<rparr>))
                  else
                    (if liveNeighbors = 3 then setNext row col True (e\<lparr>nextGrid := g\<rparr>)
                     else setNext row col False (e\<lparr>nextGrid := g\<rparr>))))
         = (None, e\<lparr>nextGrid := g(row \<mapsto> r(col \<mapsto> decide e row col))\<rparr>)"
proof -
  have same: "countLiveNeighbors (e\<lparr>nextGrid := g\<rparr>) row col = countLiveNeighbors e row col"
    by (simp add: countLiveNeighbors_def Let_def cong: if_cong)
  obtain cr where cr: "currentGrid e row = Some cr"
    using ok row by (auto simp: grid_ok_iff)
  show ?thesis
    by (simp add: same countLiveNeighbors_eq [OF ok] read_cell_def cr setNext_def write_cell_def g
        decide_def alive_def cell_at_def)
qed

lemma calc_row:
  assumes ok: "grid_ok (gridSize e) (currentGrid e)"
    and row: "0 \<le> row" "row < gridSize e"
    and g: "g row = Some r"
  shows "for_loop 0 (gridSize e) (\<lambda>col e.
         case countLiveNeighbors e row col of
           Inl err \<Rightarrow> (Some err, e)
         | Inr liveNeighbors \<Rightarrow>
             (case read_cell (currentGrid e) row col of
                Inl err \<Rightarrow> (Some err, e)
              | Inr isAlive \<Rightarrow>
                  if truthy isAlive then
                    (if liveNeighbors < 2 then setNext row col False e
                     else if liveNeighbors = 2 \<or> liveNeighbors = 3 then setNext row col True e
                     else setNext row col False e)
                  else
                    (if liveNeighbors = 3 then setNext row col True e
                     else setNext row col False e))) (e\<lparr>nextGrid := g\<rparr>)
        = (None, e\<lparr>nextGrid := g(row \<mapsto> fill_cells (gridSize e) (decide e row) r)\<rparr>)"
    (is "for_loop 0 _ ?body _ = _")
proof -
  define F where "F k = e\<lparr>nextGrid := g(row \<mapsto> fill_cells k (decide e row) r)\<rparr>" for k
  have F0: "e\<lparr>nextGrid := g\<rparr> = F 0"
    using g by (simp add: F_def fill_cells_0 map_upd_triv)
  have step: "(case countLiveNeighbors (F k) row k of
           Inl err \<Rightarrow> (Some err, F k)
         | Inr liveNeighbors \<Rightarrow>
             (case read_cell (currentGrid (F k)) row k of
                Inl err \<Rightarrow> (Some err, F k)
              | Inr isAlive \<Rightarrow>
                  if truthy isAlive then
                    (if liveNeighbors < 2 then setNext row k False (F k)
                     else if liveNeighbors = 2 \<or> liveNeighbors = 3 then setNext row k True (F k)
                     else setNext row k False (F k))
                  else
                    (if liveNeighbors = 3 then setNext row k True (F k)
                     else setNext row k False (F k)))) = (None, F (k + 1))" if "0 \<le> k" for k
  proof -
    have "(g(row \<mapsto> fill_cells k (decide e row) r)) row = Some (fill_cells k (decide e row) r)"
      by simp
    from calc_body [of e row "g(row \<mapsto> fill_cells k (decide e row) r)"
          "fill_cells k (decide e row) r" k, OF ok row this]
    show ?thesis
      unfolding F_def by (simp add: fill_cells_step [OF that])
  qed
  have "for_loop 0 (gridSize e) ?body (F 0) = (None, F (gridSize e))"
    by (rule for_loop_closed) (use row step in auto)
  then show ?thesis
    unfolding F0 by (simp add: F_def)
qed

lemma calculateNextGeneration_result:
  assumes ok: "valid e"
  shows "calculateNextGeneration e =
           (None, e\<lparr>nextGrid := fill_rows (gridSize e) (gridSize e) (decide e) (nextGrid e)\<rparr>)"
proof (cases "0 \<le> gridSize e")
  case False
  then have "fill_rows (gridSize e) (gridSize e) (decide e) (nextGrid e) = nextGrid e"
    by (auto simp: fill_rows_def fun_eq_iff)
  with False show ?thesis
    by (simp add: calculateNextGeneration_def for_loop_done)
next
  case True
  define F where "F j = e\<lparr>nextGrid := fill_rows j (gridSize e) (decide e) (nextGrid e)\<rparr>" for j
  have cur: "grid_ok (gridSize e) (currentGrid e)" and nxt: "grid_ok (gridSize e) (nextGrid e)"
    using ok by (simp_all add: valid_def)
  have F0: "F 0 = e"
    by (simp add: F_def fill_rows_0)
  have step: "for_loop 0 (gridSize e) (\<lambda>col e.
         case countLiveNeighbors e j col of
           Inl err \<Rightarrow> (Some err, e)
         | Inr liveNeighbors \<Rightarrow>
             (case read_cell (currentGrid e) j col of
                Inl err \<Rightarrow> (Some err, e)
              | Inr isAlive \<Rightarrow>
                  if truthy isAlive then
                    (if liveNeighbors < 2 then setNext j col False e
                     else if liveNeighbors = 2 \<or> liveNeighbors = 3 then setNext j col True e
                     else setNext j col False e)
                  else
                    (if liveNeighbors = 3 then setNext j col True e
                     else setNext j col False e))) (F j) = (None, F (j + 1))"
    if j: "0 \<le> j" "j < gridSize e" for j
  proof -
    obtain r where r: "nextGrid e j = Some r"
      using nxt j by (auto simp: grid_ok_iff)
    have at: "fill_rows j (gridSize e) (decide e) (nextGrid e) j = Some r"
      by (simp add: fill_rows_at r)
    show ?thesis
      unfolding F_def
      by (simp only: calc_row [of e j "fill_rows j (gridSize e) (decide e) (nextGrid e)" r, OF cur j at]
          fill_rows_step [where g = "nextGrid e" and f = "decide e", OF j(1) r])
  qed
  have "for_loop 0 (gridSize e) (\<lambda>row.
       for_loop 0 (gridSize e) (\<lambda>col e.
         case countLiveNeighbors e row col of
           Inl err \<Rightarrow> (Some err, e)
         | Inr liveNeighbors \<Rightarrow>
             (case read_cell (currentGrid e) row col of
                Inl err \<Rightarrow> (Some err, e)
              | Inr isAlive \<Rightarrow>
                  if truthy isAlive then
                    (if liveNeighbors < 2 then setNext row col False e
                     else if liveNeighbors = 2 \<or> liveNeighbors = 3 then setNext row col True e
                     else setNext row col False e)
                  else
                    (if liveNeighbors = 3 then setNext row col True e
                     else setNext row col False e)))) (F 0) = (None, F (gridSize e))"
    by (rule for_loop_closed) (use True step in auto)
  then show ?thesis
    unfolding calculateNextGeneration_def F0 by (simp add: F_def)
qed

subsection \<open>The display never throws on a well-formed grid\<close>

lemma updateCellDisplay_ok:
  assumes "grid_ok (gridSize e) (currentGrid e)" "in_bounds e row col"
  shows "updateCellDisplay e row col = None"
  using assms
  by (auto simp: updateCellDisplay_def read_cell_def cellElement_def in_bounds_def grid_ok_iff
      split: option.splits)

lemma countLiveCells_eq:
  assumes ok: "grid_ok (gridSize e) (currentGrid e)"
  shows "countLiveCells e = Inr (live_count e)"
proof -
  have cell: "(case read_cell (currentGrid e) row col of
                 Inl err \<Rightarrow> (Some err, count)
               | Inr v \<Rightarrow> if truthy v then (None, count + 1) else (None, count))
              = (None, count + (if alive e row col then 1 else 0))"
    if "0 \<le> row" "row < gridSize e" for row col and count :: int
    using ok that
    by (auto simp: grid_ok_iff read_cell_def alive_def cell_at_def split: option.splits)
  have row: "for_loop 0 (gridSize e) (\<lambda>col count.
               case read_cell (currentGrid e) row col of
                 Inl err \<Rightarrow> (Some err, count)
               | Inr v \<Rightarrow> if truthy v then (None, count + 1) else (None, count)) count
             = (None, count + (\<Sum>col\<leftarrow>[0..gridSize e - 1]. if alive e row col then 1 else 0))"
    if "0 \<le> row" "row < gridSize e" for row and count :: int
    by (rule for_loop_sum) (simp add: cell that)
  have "for_loop 0 (gridSize e) (\<lambda>row.
             for_loop 0 (gridSize e) (\<lambda>col count.
               case read_cell (currentGrid e) row col of
                 Inl err \<Rightarrow> (Some err, count)
               | Inr v \<Rightarrow> if truthy v then (None, count + 1) else (None, count))) 0
        = (None, 0 + live_count e)"
    unfolding live_count_def by (rule for_loop_sum) (simp add: row)
  then show ?thesis
    by (simp add: countLiveCells_def)
qed

lemma updateDisplay_ok:
  assumes ok: "grid_ok (gridSize e) (currentGrid e)"
  shows "updateDisplay e = (None, e)"
proof -
  have row: "for_loop 0 (gridSize e) (\<lambda>col u. (updateCellDisplay e row col, u)) () = (None, ())"
    if "0 \<le> row" "row < gridSize e" for row
  proof -
    have "\<exists>s'. for_loop 0 (gridSize e) (\<lambda>col u. (updateCellDisplay e row col, u)) () = (None, s') \<and> True"
      by (rule for_loop_invariant [where I = "\<lambda>_ _. True"])
        (simp_all add: updateCellDisplay_ok [OF ok] in_bounds_def that)
    then show ?thesis by simp
  qed
  have "\<exists>s'. for_loop 0 (gridSize e) (\<lambda>row.
             for_loop 0 (gridSize e) (\<lambda>col u. (updateCellDisplay e row col, u))) () = (None, s') \<and> True"
    by (rule for_loop_invariant [where I = "\<lambda>_ _. True"]) (simp_all add: row)
  then show ?thesis
    by (auto simp: updateDisplay_def countLiveCells_eq [OF ok])
qed

subsection \<open>One generation\<close>

lemma grid_ok_fill_rows:
  assumes "grid_ok n g"
  shows "grid_ok n (fill_rows n n f g)"
  using assms unfolding grid_ok_iff
  by (auto simp: fill_rows_def fill_cells_def)

lemma cell_at_fill_rows:
  assumes "grid_ok n g" "0 \<le> row" "row < n" "0 \<le> col" "col < n"
  shows "cell_at (fill_rows n n f g) row col = Some (f row col)"
  using assms unfolding grid_ok_iff
  by (auto simp: cell_at_def fill_rows_def fill_cells_def)

lemma step_result:
  assumes ok: "valid e"
  shows "step e =
           (None, e\<lparr>currentGrid := fill_rows (gridSize e) (gridSize e) (decide e) (nextGrid e),
                     nextGrid := currentGrid e, generation := generation e + 1\<rparr>)"
proof -
  have "grid_ok (gridSize e) (fill_rows (gridSize e) (gridSize e) (decide e) (nextGrid e))"
    using ok by (simp add: valid_def grid_ok_fill_rows)
  then show ?thesis
    by (simp add: step_def calculateNextGeneration_result [OF ok] updateDisplay_ok)
qed

lemma conway_rule_decide: "conway_rule (alive e row col) (live_adjacent e row col) (decide e row col)"
  by (simp add: conway_rule_def decide_def)

text \<open>
  Claim C1. On a valid engine \<open>step\<close> returns normally, and every cell inside the grid
  then holds a boolean that obeys Conway's rule for the cell's state before the step and
  the number of live cells among its eight neighbours in the grid before the step, which
  is also what \<open>countLiveNeighbors\<close> returns on the engine before the step: an alive
  cell with fewer than 2 live neighbours is dead, with 2 or 3 alive, with more than 3
  dead; a dead cell with exactly 3 is alive, otherwise dead.
\<close>

theorem step_applies_conway_rule:
  assumes "valid e" and "in_bounds e row col"
  shows "\<exists>e'. step e = (None, e') \<and>
           countLiveNeighbors e row col = Inr (live_adjacent e row col) \<and>
           cell_at (currentGrid e') row col = Some (alive e' row col) \<and>
           conway_rule (alive e row col) (live_adjacent e row col) (alive e' row col)"
proof -
  let ?e' = "e\<lparr>currentGrid := fill_rows (gridSize e) (gridSize e) (decide e) (nextGrid e),
                nextGrid := currentGrid e, generation := generation e + 1\<rparr>"
  have cell: "cell_at (currentGrid ?e') row col = Some (decide e row col)"
    using assms by (simp add: valid_def in_bounds_def cell_at_fill_rows)
  then have "alive ?e' row col = decide e row col"
    by (simp add: alive_def truthy_def)
  with cell have "cell_at (currentGrid ?e') row col = Some (alive ?e' row col) \<and>
      conway_rule (alive e row col) (live_adjacent e row col) (alive ?e' row col)"
    by (simp add: conway_rule_decide)
  moreover have "countLiveNeighbors e row col = Inr (live_adjacent e row col)"
    using assms(1) by (simp add: valid_def countLiveNeighbors_eq)
  ultimately show ?thesis
    using step_result [OF assms(1)] by blast
qed

theorem step_applies_conway_rule_witness:
  "valid blinker_engine \<and> in_bounds blinker_engine 1 0 \<and> in_bounds blinker_engine 0 1 \<and>
   \<not> alive blinker_engine 1 0 \<and> live_adjacent blinker_engine 1 0 = 3 \<and>
   alive (snd (step blinker_engine)) 1 0 \<and>
   alive blinker_engine 0 1 \<and> live_adjacent blinker_engine 0 1 = 1 \<and>
   \<not> alive (snd (step blinker_engine)) 0 1"
proof -
  have v: "valid blinker_engine" by code_simp
  have b: "in_bounds blinker_engine 1 0" and b': "in_bounds blinker_engine 0 1"
    by code_simp+
  have d: "\<not> alive blinker_engine 1 0" and k: "live_adjacent blinker_engine 1 0 = 3"
    by code_simp+
  have a: "alive blinker_engine 0 1" and k': "live_adjacent blinker_engine 0 1 = 1"
    by code_simp+
  from step_applies_conway_rule [OF v b] obtain e'
    where "step blinker_engine = (None, e')"
      "conway_rule (alive blinker_engine 1 0) (live_adjacent blinker_engine 1 0) (alive e' 1 0)"
    by blast
  with d k have born: "alive (snd (step blinker_engine)) 1 0"
    by (simp add: conway_rule_def)
  from step_applies_conway_rule [OF v b'] obtain e''
    where "step blinker_engine = (None, e'')"
      "conway_rule (alive blinker_engine 0 1) (live_adjacent blinker_engine 0 1) (alive e'' 0 1)"
    by blast
  with a k' have dies: "\<not> alive (snd (step blinker_engine)) 0 1"
    by (simp add: conway_rule_def)
  from v b b' d k a k' born dies show ?thesis by blast
qed

subsection \<open>initializeGrids and the constructor\<close>

lemma dead_grid_0: "dead_grid 0 n = Map.empty"
  by (auto simp: dead_grid_def fun_eq_iff)

lemma dead_grid_step:
  "0 \<le> j \<Longrightarrow> (dead_grid j n)(j \<mapsto> fill_cells n (\<lambda>_. False) Map.empty) = dead_grid (j + 1) n"
  by (auto simp: dead_grid_def fun_eq_iff)

lemma init_row:
  assumes "0 \<le> n"
  shows "for_loop 0 n (\<lambda>col e2.
             case setCurrent row col False e2 of
               (None, e3) \<Rightarrow> setNext row col False e3
             | (Some err, e3) \<Rightarrow> (Some err, e3))
           (e\<lparr>currentGrid := g(row \<mapsto> Map.empty), nextGrid := g'(row \<mapsto> Map.empty)\<rparr>)
         = (None, e\<lparr>currentGrid := g(row \<mapsto> fill_cells n (\<lambda>_. False) Map.empty),
                     nextGrid := g'(row \<mapsto> fill_cells n (\<lambda>_. False) Map.empty)\<rparr>)"
    (is "for_loop 0 n ?body _ = _")
proof -
  define F where "F k = e\<lparr>currentGrid := g(row \<mapsto> fill_cells k (\<lambda>_. False) Map.empty),
                          nextGrid := g'(row \<mapsto> fill_cells k (\<lambda>_. False) Map.empty)\<rparr>" for k
  have step: "?body k (F k) = (None, F (k + 1))" if "0 \<le> k" for k
    by (simp add: F_def setCurrent_def setNext_def write_cell_def
        fill_cells_step [OF that, of "\<lambda>_. False" Map.empty])
  have "for_loop 0 n ?body (F 0) = (None, F n)"
    by (rule for_loop_closed) (use assms step in auto)
  then show ?thesis
    by (simp add: F_def fill_cells_0)
qed

lemma initializeGrids_result:
  "initializeGrids e =
     (None, e\<lparr>currentGrid := dead_grid (gridSize e) (gridSize e),
               nextGrid := dead_grid (gridSize e) (gridSize e)\<rparr>)"
proof (cases "0 \<le> gridSize e")
  case False
  then have "dead_grid (gridSize e) (gridSize e) = Map.empty"
    by (auto simp: dead_grid_def fun_eq_iff)
  with False show ?thesis
    by (simp add: initializeGrids_def for_loop_done)
next
  case True
  define F where "F j = e\<lparr>currentGrid := dead_grid j (gridSize e),
                          nextGrid := dead_grid j (gridSize e)\<rparr>" for j
  have step: "for_loop 0 (gridSize e) (\<lambda>col e2.
             case setCurrent j col False e2 of
               (None, e3) \<Rightarrow> setNext j col False e3
             | (Some err, e3) \<Rightarrow> (Some err, e3))
           ((F j)\<lparr>currentGrid := (currentGrid (F j))(j \<mapsto> Map.empty),
                nextGrid := (nextGrid (F j))(j \<mapsto> Map.empty)\<rparr>) = (None, F (j + 1))"
    if "0 \<le> j" for j
    using init_row [OF True, where row = j and e = e and g = "dead_grid j (gridSize e)"
        and g' = "dead_grid j (gridSize e)"]
    by (simp add: F_def dead_grid_step [OF that])
  have "for_loop 0 (gridSize e) (\<lambda>row e1.
         for_loop 0 (gridSize e) (\<lambda>col e2.
             case setCurrent row col False e2 of
               (None, e3) \<Rightarrow> setNext row col False e3
             | (Some err, e3) \<Rightarrow> (Some err, e3))
           (e1\<lparr>currentGrid := (currentGrid e1)(row \<mapsto> Map.empty),
                nextGrid := (nextGrid e1)(row \<mapsto> Map.empty)\<rparr>)) (F 0) = (None, F (gridSize e))"
    by (rule for_loop_closed) (use True step in auto)
  then show ?thesis
    by (simp add: initializeGrids_def F_def dead_grid_0)
qed

lemma cell_at_dead_grid:
  "cell_at (dead_grid n n) row col =
     (if 0 \<le> row \<and> row < n \<and> 0 \<le> col \<and> col < n then Some False else None)"
  by (simp add: cell_at_def dead_grid_def fill_cells_def)

lemma grid_ok_dead_grid: "grid_ok n (dead_grid n n)"
  by (auto simp: grid_ok_iff dead_grid_def fill_cells_def)

subsection \<open>start, pause, clear\<close>

lemma constructor_result:
  "constructor n =
     (None, \<lparr>gridSize = n, currentGrid = dead_grid n n, nextGrid = dead_grid n n,
             isRunning = False, generation = 0, intervalId = None, speed = 5,
             armed = [], handles = 0\<rparr>)"
  by (simp add: constructor_def initializeGrids_result updateDisplay_ok grid_ok_dead_grid)

lemma start_result:
  "start e =
     (None, if isRunning e then e
            else e\<lparr>isRunning := True, intervalId := Some (handles e),
                   armed := armed e @ [(handles e, max 50 (1000 - (speed e - 1) * 45))],
                   handles := Suc (handles e)\<rparr>)"
  by (simp add: start_def setInterval_def Let_def)

lemma pause_result:
  "pause e =
     (None, if isRunning e
            then e\<lparr>isRunning := False, intervalId := None,
                   armed := (case intervalId e of None \<Rightarrow> armed e
                             | Some h \<Rightarrow> filter (\<lambda>t. fst t \<noteq> h) (armed e))\<rparr>
            else e)"
  by (simp add: pause_def clearInterval_def Let_def split: option.splits)

lemma filter_only:
  "map fst ts = [h] \<Longrightarrow> filter (\<lambda>t. fst t \<noteq> h) ts = []"
  by (cases ts) auto

lemma pause_timer_ok:
  "timer_ok e \<Longrightarrow> snd (pause e) = e\<lparr>isRunning := False, intervalId := None, armed := []\<rparr>"
  by (cases "intervalId e") (auto simp: pause_result timer_ok_def filter_only)

lemma clear_result:
  "clear e =
     (None, (snd (pause e))\<lparr>currentGrid := dead_grid (gridSize e) (gridSize e),
                             nextGrid := dead_grid (gridSize e) (gridSize e),
                             generation := 0\<rparr>)"
proof -
  have size: "gridSize (snd (pause e)) = gridSize e"
    by (simp add: pause_result)
  show ?thesis
    by (simp add: clear_def pause_result initializeGrids_result updateDisplay_ok grid_ok_dead_grid)
qed

lemma live_count_dead:
  assumes "currentGrid e = dead_grid (gridSize e) (gridSize e)"
  shows "live_count e = 0"
proof -
  have "\<not> alive e row col" for row col
    by (simp add: alive_def assms cell_at_dead_grid truthy_def)
  then show ?thesis
    by (simp add: live_count_def)
qed

subsection \<open>toggleCell\<close>

lemma grid_ok_cell:
  assumes "grid_ok n g" "0 \<le> row" "row < n" "0 \<le> col" "col < n"
  shows "\<exists>r b. g row = Some r \<and> r col = Some b"
proof -
  from assms(1-3) obtain r where r: "g row = Some r" "\<forall>col. 0 \<le> col \<and> col < n \<longrightarrow> r col \<noteq> None"
    unfolding grid_ok_iff by blast
  with assms(4,5) have "r col \<noteq> None" by blast
  with r(1) show ?thesis by auto
qed

lemma toggleCell_result:
  "toggleCell row col e =
     (case currentGrid e row of
        None \<Rightarrow> (Some TypeError, e)
      | Some r \<Rightarrow>
          (if in_bounds e row col then None else Some TypeError,
           e\<lparr>currentGrid := (currentGrid e)(row \<mapsto> r(col \<mapsto> \<not> truthy (r col)))\<rparr>))"
  by (simp add: toggleCell_def read_cell_def setCurrent_def write_cell_def updateCellDisplay_def
      cellElement_def in_bounds_def split: option.splits)

lemma cell_at_upd:
  "g row = Some r \<Longrightarrow>
   cell_at (g(row \<mapsto> r(col \<mapsto> v))) row' col' =
     (if row' = row \<and> col' = col then Some v else cell_at g row' col')"
  by (simp add: cell_at_def)

text \<open>
  Claim C10. On a valid engine and for coordinates inside the grid, \<open>toggleCell\<close>
  returns normally, and a second \<open>toggleCell\<close> at the same coordinates returns
  normally in exactly the engine state before the first; the state in between has the
  same generation, running flag and speed.
\<close>

theorem toggleCell_twice:
  assumes "valid e" and "in_bounds e row col"
  shows "\<exists>e'. toggleCell row col e = (None, e') \<and> toggleCell row col e' = (None, e) \<and>
           generation e' = generation e \<and> isRunning e' = isRunning e \<and> speed e' = speed e"
proof -
  obtain r b where r: "currentGrid e row = Some r" and b: "r col = Some b"
    using assms grid_ok_cell [of "gridSize e" "currentGrid e" row col]
    by (auto simp: valid_def in_bounds_def)
  let ?e' = "e\<lparr>currentGrid := (currentGrid e)(row \<mapsto> r(col \<mapsto> \<not> b))\<rparr>"
  have first: "toggleCell row col e = (None, ?e')"
    using assms(2) by (simp add: toggleCell_result r b truthy_def)
  have "in_bounds ?e' row col"
    using assms(2) by (simp add: in_bounds_def)
  moreover have "(currentGrid e)(row \<mapsto> r(col \<mapsto> b)) = currentGrid e"
    using r b by (simp add: map_upd_triv)
  ultimately have "toggleCell row col ?e' = (None, e)"
    by (simp add: toggleCell_result truthy_def)
  with first show ?thesis by simp
qed

theorem toggleCell_twice_witness:
  "valid corner_engine \<and> in_bounds corner_engine 0 1 \<and>
   toggleCell 0 1 (snd (toggleCell 0 1 corner_engine)) = (None, corner_engine)"
proof -
  have v: "valid corner_engine" by code_simp
  have b: "in_bounds corner_engine 0 1" by code_simp
  from toggleCell_twice [OF v b] v b show ?thesis by auto
qed

subsection \<open>Construction\<close>

text \<open>
  Claim C5, as the code has it. The constructor checks nothing and never throws: for
  every integer size it returns an engine of that size with generation 0, not running,
  no timer, speed 5, and two grids that hold a dead cell at every row and column from 0
  up to the size and nothing else; for a size of 0 or less both grids are empty.
\<close>

theorem constructor_any_size:
  "\<exists>e. constructor n = (None, e) \<and> gridSize e = n \<and> generation e = 0 \<and> \<not> isRunning e \<and>
        intervalId e = None \<and> armed e = [] \<and> speed e = 5 \<and>
        (\<forall>row col. cell_at (currentGrid e) row col =
                      (if 0 \<le> row \<and> row < n \<and> 0 \<le> col \<and> col < n then Some False else None) \<and>
                    cell_at (nextGrid e) row col =
                      (if 0 \<le> row \<and> row < n \<and> 0 \<le> col \<and> col < n then Some False else None)) \<and>
        (n \<le> 0 \<longrightarrow> currentGrid e = Map.empty \<and> nextGrid e = Map.empty)"
proof -
  have "n \<le> 0 \<Longrightarrow> dead_grid n n = Map.empty"
    by (auto simp: dead_grid_def fun_eq_iff)
  then show ?thesis
    by (simp add: constructor_result cell_at_dead_grid)
qed

theorem constructor_any_size_witness:
  "fst (constructor 2) = None \<and> cell_at (currentGrid (snd (constructor 2))) 1 1 = Some False \<and>
   cell_at (currentGrid (snd (constructor 2))) 1 2 = None \<and>
   currentGrid (snd (constructor (- 1))) = Map.empty"
proof -
  from constructor_any_size [of 2] have "fst (constructor 2) = None \<and>
      cell_at (currentGrid (snd (constructor 2))) 1 1 = Some False \<and>
      cell_at (currentGrid (snd (constructor 2))) 1 2 = None"
    by auto
  moreover from constructor_any_size [of "- 1"] have "currentGrid (snd (constructor (- 1))) = Map.empty"
    by auto
  ultimately show ?thesis by simp
qed

theorem constructor_size_zero_counterexample:
  "fst (constructor 0) = None \<and> gridSize (snd (constructor 0)) = 0 \<and>
   fst (constructor (- 3)) = None \<and> gridSize (snd (constructor (- 3))) = - 3"
  by code_simp

subsection \<open>clear\<close>

text \<open>
  Claim C8. On any engine state \<open>clear\<close> returns normally; afterwards both grids hold a
  dead cell at every position inside the grid and nothing else, \<open>countLiveCells\<close>
  returns 0, the generation is 0 and the engine is not running. When the handle and the
  timer table agreed before, no timer is armed afterwards.
\<close>

theorem clear_resets:
  "\<exists>e'. clear e = (None, e') \<and>
         (\<forall>row col. cell_at (currentGrid e') row col =
                       (if in_bounds e row col then Some False else None) \<and>
                     cell_at (nextGrid e') row col =
                       (if in_bounds e row col then Some False else None)) \<and>
         countLiveCells e' = Inr 0 \<and> generation e' = 0 \<and> \<not> isRunning e' \<and>
         gridSize e' = gridSize e \<and>
         (timer_ok e \<longrightarrow> intervalId e' = None \<and> armed e' = [])"
proof -
  let ?e' = "(snd (pause e))\<lparr>currentGrid := dead_grid (gridSize e) (gridSize e),
                             nextGrid := dead_grid (gridSize e) (gridSize e),
                             generation := 0\<rparr>"
  have size: "gridSize ?e' = gridSize e"
    by (simp add: pause_result)
  have "grid_ok (gridSize ?e') (currentGrid ?e')"
    by (simp add: size grid_ok_dead_grid)
  moreover have "live_count ?e' = 0"
    by (rule live_count_dead) (simp add: size)
  ultimately have "countLiveCells ?e' = Inr 0"
    by (simp add: countLiveCells_eq)
  moreover have "\<not> isRunning ?e'"
    by (simp add: pause_result)
  moreover have "timer_ok e \<longrightarrow> intervalId ?e' = None \<and> armed ?e' = []"
    by (simp add: pause_timer_ok)
  ultimately show ?thesis
    using size by (simp add: clear_result cell_at_dead_grid in_bounds_def)
qed

theorem clear_resets_witness:
  "timer_ok busy_engine \<and> isRunning busy_engine \<and> armed busy_engine \<noteq> [] \<and>
   fst (clear busy_engine) = None \<and> armed (snd (clear busy_engine)) = [] \<and>
   countLiveCells (snd (clear busy_engine)) = Inr 0 \<and>
   cell_at (currentGrid (snd (clear busy_engine))) 0 1 = Some False"
proof -
  have t: "timer_ok busy_engine" by code_simp
  have r: "isRunning busy_engine \<and> armed busy_engine \<noteq> []" by code_simp
  have b: "in_bounds busy_engine 0 1" by code_simp
  from clear_resets [of busy_engine] t r b show ?thesis by auto
qed

subsection \<open>The delay between steps\<close>

text \<open>
  Claim C9. \<open>start\<close> on an engine that is not running arms one more timer, whose delay
  is \<open>max(50, 1000 - (speed - 1) * 45)\<close> milliseconds. That delay is never below 50,
  and of two speeds between 1 and 20 the higher one gives a delay that is no longer.
\<close>

theorem start_delay:
  assumes "\<not> isRunning e" and "\<not> isRunning e'"
  shows "armed (snd (start e)) = armed e @ [(handles e, max 50 (1000 - (speed e - 1) * 45))] \<and>
         50 \<le> snd (last (armed (snd (start e)))) \<and>
         (1 \<le> speed e \<and> speed e \<le> speed e' \<and> speed e' \<le> 20 \<longrightarrow>
            snd (last (armed (snd (start e')))) \<le> snd (last (armed (snd (start e)))))"
  using assms by (simp add: start_result)

theorem start_delay_witness:
  "\<not> isRunning (snd (constructor 2)) \<and> \<not> isRunning (snd (setSpeed 20 (snd (constructor 2)))) \<and>
   armed (snd (start (snd (constructor 2)))) = [(0, 820)] \<and>
   snd (last (armed (snd (start (snd (setSpeed 20 (snd (constructor 2)))))))) \<le> 820"
proof -
  let ?slow = "snd (constructor 2)" and ?fast = "snd (setSpeed 20 (snd (constructor 2)))"
  have a: "\<not> isRunning ?slow" by code_simp
  have b: "\<not> isRunning ?fast" by code_simp
  have c: "speed ?slow = 5" "speed ?fast = 20" "armed ?slow = []" "handles ?slow = 0"
    by code_simp+
  from start_delay [OF a b]
  have d: "armed (snd (start ?slow)) = armed ?slow @ [(handles ?slow, max 50 (1000 - (speed ?slow - 1) * 45))]"
    and m: "1 \<le> speed ?slow \<and> speed ?slow \<le> speed ?fast \<and> speed ?fast \<le> 20 \<longrightarrow>
            snd (last (armed (snd (start ?fast)))) \<le> snd (last (armed (snd (start ?slow))))"
    by blast+
  from d have d': "armed (snd (start ?slow)) = [(0, 820)]"
    by (simp add: c)
  from m have "snd (last (armed (snd (start ?fast)))) \<le> 820"
    by (simp add: c d')
  with a b d' show ?thesis by blast
qed

subsection \<open>setSpeed\<close>

text \<open>
  Claim C7, as the code has it. \<open>setSpeed\<close> checks nothing: it returns normally and
  stores whatever speed it is given. On an engine that is not running it changes nothing
  else. On a running engine it then pauses and starts; when the handle and the timer
  table agreed before, the engine is running afterwards with exactly one timer armed,
  a new one, whose delay is the one of the new speed.
\<close>

theorem setSpeed_stores_and_restarts:
  "fst (setSpeed newSpeed e) = None \<and> speed (snd (setSpeed newSpeed e)) = newSpeed \<and>
   (\<not> isRunning e \<longrightarrow> snd (setSpeed newSpeed e) = e\<lparr>speed := newSpeed\<rparr>) \<and>
   (isRunning e \<longrightarrow> setSpeed newSpeed e = start (snd (pause (e\<lparr>speed := newSpeed\<rparr>)))) \<and>
   (isRunning e \<and> timer_ok e \<longrightarrow>
      snd (setSpeed newSpeed e) =
        e\<lparr>speed := newSpeed, isRunning := True, intervalId := Some (handles e),
           armed := [(handles e, max 50 (1000 - (newSpeed - 1) * 45))],
           handles := Suc (handles e)\<rparr>)"
  by (cases "intervalId e")
    (auto simp: setSpeed_def Let_def pause_result start_result timer_ok_def filter_only)

theorem setSpeed_stores_and_restarts_witness:
  "isRunning busy_engine \<and> timer_ok busy_engine \<and>
   armed busy_engine = [(1, 595)] \<and>
   speed (snd (setSpeed 20 busy_engine)) = 20 \<and>
   armed (snd (setSpeed 20 busy_engine)) = [(2, 145)] \<and>
   snd (setSpeed 7 (snd (constructor 2))) = (snd (constructor 2))\<lparr>speed := 7\<rparr>"
proof -
  have r: "isRunning busy_engine" and t: "timer_ok busy_engine"
    and h: "handles busy_engine = 2" and a: "armed busy_engine = [(1, 595)]"
    by code_simp+
  have n: "\<not> isRunning (snd (constructor 2))" by code_simp
  from setSpeed_stores_and_restarts [of 20 busy_engine] r t
  have "snd (setSpeed 20 busy_engine) =
        busy_engine\<lparr>speed := 20, isRunning := True, intervalId := Some (handles busy_engine),
           armed := [(handles busy_engine, max 50 (1000 - (20 - 1) * 45))],
           handles := Suc (handles busy_engine)\<rparr>"
    by blast
  then have "speed (snd (setSpeed 20 busy_engine)) = 20 \<and>
        armed (snd (setSpeed 20 busy_engine)) = [(2, 145)]"
    by (simp add: h)
  moreover from setSpeed_stores_and_restarts [of 7 "snd (constructor 2)"] n
  have "snd (setSpeed 7 (snd (constructor 2))) = (snd (constructor 2))\<lparr>speed := 7\<rparr>"
    by blast
  ultimately show ?thesis using r t a by blast
qed

theorem setSpeed_out_of_range_counterexample:
  "fst (setSpeed 25 (snd (constructor 2))) = None \<and>
   speed (snd (setSpeed 25 (snd (constructor 2)))) = 25 \<and>
   fst (setSpeed 0 (snd (constructor 2))) = None \<and>
   speed (snd (setSpeed 0 (snd (constructor 2)))) = 0"
  by code_simp

subsection \<open>randomize\<close>

lemma randomize_row:
  assumes row: "g row = Some r" and n: "0 \<le> n"
  shows "for_loop 0 n (\<lambda>col. setCurrent row col (below row col)) (e\<lparr>currentGrid := g\<rparr>)
         = (None, e\<lparr>currentGrid := g(row \<mapsto> fill_cells n (below row) r)\<rparr>)"
proof -
  define F where "F k = e\<lparr>currentGrid := g(row \<mapsto> fill_cells k (below row) r)\<rparr>" for k
  have F0: "e\<lparr>currentGrid := g\<rparr> = F 0"
    using row by (simp add: F_def fill_cells_0 map_upd_triv)
  have step: "setCurrent row k (below row k) (F k) = (None, F (k + 1))" if "0 \<le> k" for k
    by (simp add: F_def setCurrent_def write_cell_def fill_cells_step [OF that, of "below row" r])
  have "for_loop 0 n (\<lambda>col. setCurrent row col (below row col)) (F 0) = (None, F n)"
    by (rule for_loop_closed) (use n step in auto)
  then show ?thesis
    unfolding F0 by (simp add: F_def)
qed

lemma randomize_grid:
  assumes ok: "grid_ok (gridSize e) (currentGrid e)"
  shows "for_loop 0 (gridSize e) (\<lambda>row.
            for_loop 0 (gridSize e) (\<lambda>col. setCurrent row col (below row col))) e
         = (None, e\<lparr>currentGrid := fill_rows (gridSize e) (gridSize e) below (currentGrid e)\<rparr>)"
proof (cases "0 \<le> gridSize e")
  case False
  then have "fill_rows (gridSize e) (gridSize e) below (currentGrid e) = currentGrid e"
    by (auto simp: fill_rows_def fun_eq_iff)
  with False show ?thesis
    by (simp add: for_loop_done)
next
  case True
  define F where "F j = e\<lparr>currentGrid := fill_rows j (gridSize e) below (currentGrid e)\<rparr>" for j
  have F0: "F 0 = e"
    by (simp add: F_def fill_rows_0)
  have step: "for_loop 0 (gridSize e) (\<lambda>col. setCurrent j col (below j col)) (F j) = (None, F (j + 1))"
    if j: "0 \<le> j" "j < gridSize e" for j
  proof -
    obtain r where r: "currentGrid e j = Some r"
      using ok j by (auto simp: grid_ok_iff)
    have at: "fill_rows j (gridSize e) below (currentGrid e) j = Some r"
      by (simp add: fill_rows_at r)
    show ?thesis
      unfolding F_def
      by (simp only: randomize_row [where g = "fill_rows j (gridSize e) below (currentGrid e)", OF at True]
          fill_rows_step [where g = "currentGrid e" and f = below, OF j(1) r])
  qed
  have "for_loop 0 (gridSize e) (\<lambda>row.
            for_loop 0 (gridSize e) (\<lambda>col. setCurrent row col (below row col))) (F 0)
        = (None, F (gridSize e))"
    by (rule for_loop_closed) (use True step in auto)
  then show ?thesis
    unfolding F0 by (simp add: F_def)
qed

lemma pause_grids:
  "gridSize (snd (pause e)) = gridSize e \<and> currentGrid (snd (pause e)) = currentGrid e \<and>
   nextGrid (snd (pause e)) = nextGrid e \<and> generation (snd (pause e)) = generation e \<and>
   \<not> isRunning (snd (pause e))"
  by (simp add: pause_result)

lemma randomize_result:
  assumes ok: "valid e"
  shows "randomize below e =
           (None, (snd (pause e))\<lparr>currentGrid := fill_rows (gridSize e) (gridSize e) below (currentGrid e),
                                   generation := 0\<rparr>)"
proof -
  have p: "pause e = (None, snd (pause e))"
    by (simp add: pause_result)
  have g: "grid_ok (gridSize (snd (pause e))) (currentGrid (snd (pause e)))"
    using ok by (simp add: pause_grids valid_def)
  have loop: "for_loop 0 (gridSize e) (\<lambda>row.
            for_loop 0 (gridSize e) (\<lambda>col. setCurrent row col (below row col))) (snd (pause e))
         = (None, (snd (pause e))\<lparr>currentGrid :=
                     fill_rows (gridSize e) (gridSize e) below (currentGrid e)\<rparr>)"
    using randomize_grid [OF g, of below] by (simp add: pause_grids)
  have "grid_ok (gridSize e) (fill_rows (gridSize e) (gridSize e) below (currentGrid e))"
    using ok by (simp add: valid_def grid_ok_fill_rows)
  then show ?thesis
    unfolding randomize_def
    by (subst p) (simp add: loop pause_grids updateDisplay_ok)
qed

subsection \<open>What every operation preserves\<close>

lemma grid_ok_upd:
  assumes "grid_ok n g" "g row = Some r"
  shows "grid_ok n (g(row \<mapsto> r(col \<mapsto> v)))"
  using assms unfolding grid_ok_iff by auto

lemma valid_toggleCell: "valid e \<Longrightarrow> valid (snd (toggleCell row col e))"
  by (auto simp: toggleCell_result valid_def grid_ok_upd split: option.splits)

lemma valid_exec:
  assumes "valid e"
  shows "valid (snd (exec x e))"
proof (cases x)
  case Step
  with assms show ?thesis
    by (simp add: step_result) (simp add: valid_def grid_ok_fill_rows)
next
  case Clear
  then show ?thesis
    by (simp add: clear_result valid_def pause_grids grid_ok_dead_grid)
next
  case (Randomize below)
  with assms show ?thesis
    by (simp add: randomize_result) (simp add: valid_def pause_grids grid_ok_fill_rows)
next
  case (ToggleCell row col)
  with assms show ?thesis
    by (simp add: valid_toggleCell)
qed (use assms in \<open>auto simp: valid_def start_result pause_result toggleStartPause_def
      setSpeed_def Let_def\<close>)

lemma timer_ok_start: "timer_ok e \<Longrightarrow> timer_ok (snd (start e))"
  by (cases "intervalId e") (auto simp: start_result timer_ok_def)

lemma timer_ok_pause: "timer_ok e \<Longrightarrow> timer_ok (snd (pause e))"
  by (simp add: pause_timer_ok) (simp add: timer_ok_def)

lemma timer_ok_grids:
  "timer_ok (e\<lparr>currentGrid := g\<rparr>) = timer_ok e"
  "timer_ok (e\<lparr>nextGrid := g\<rparr>) = timer_ok e"
  "timer_ok (e\<lparr>generation := k\<rparr>) = timer_ok e"
  "timer_ok (e\<lparr>speed := s\<rparr>) = timer_ok e"
  by (simp_all add: timer_ok_def cong: option.case_cong)

lemma setSpeed_result:
  "setSpeed newSpeed e =
     (if isRunning e then start (snd (pause (e\<lparr>speed := newSpeed\<rparr>)))
      else (None, e\<lparr>speed := newSpeed\<rparr>))"
proof -
  have "pause (e\<lparr>speed := newSpeed\<rparr>) = (None, snd (pause (e\<lparr>speed := newSpeed\<rparr>)))"
    by (simp add: pause_result)
  then show ?thesis
    by (auto simp: setSpeed_def Let_def split: prod.splits option.splits)
qed

lemma timer_ok_exec:
  assumes "valid e" "timer_ok e"
  shows "timer_ok (snd (exec x e))"
proof (cases x)
  case Step
  with assms show ?thesis
    by (simp add: step_result timer_ok_grids)
next
  case Clear
  with assms show ?thesis
    by (simp add: clear_result timer_ok_grids timer_ok_pause)
next
  case (Randomize below)
  with assms show ?thesis
    by (simp add: randomize_result timer_ok_grids timer_ok_pause)
next
  case (ToggleCell row col)
  with assms show ?thesis
    by (auto simp: toggleCell_result timer_ok_grids split: option.splits)
next
  case (SetSpeed newSpeed)
  have "timer_ok (snd (start (snd (pause (e\<lparr>speed := newSpeed\<rparr>)))))"
    using assms(2) by (intro timer_ok_start timer_ok_pause) (simp add: timer_ok_grids)
  with SetSpeed assms show ?thesis
    by (simp add: setSpeed_result timer_ok_grids)
qed (use assms in \<open>auto simp: toggleStartPause_def timer_ok_start timer_ok_pause\<close>)

lemma generation_exec:
  assumes "valid e"
  shows "generation (snd (exec x e)) =
           (case x of Step \<Rightarrow> generation e + 1 | Clear \<Rightarrow> 0 | Randomize below \<Rightarrow> 0
            | _ \<Rightarrow> generation e)"
  using assms
  by (cases x)
    (auto simp: start_result pause_result toggleStartPause_def step_result clear_result
      randomize_result setSpeed_def Let_def toggleCell_result split: option.splits)

lemma run_invariant:
  "valid e \<Longrightarrow> timer_ok e \<Longrightarrow> valid (run ops e) \<and> timer_ok (run ops e)"
  by (induction ops arbitrary: e) (simp_all add: valid_exec timer_ok_exec)

lemma constructor_invariant: "valid (snd (constructor n)) \<and> timer_ok (snd (constructor n))"
  by (simp add: constructor_result valid_def grid_ok_dead_grid timer_ok_def)

text \<open>
  Claim C4. In every state an engine reaches from its construction by any sequence of
  \<open>start\<close>, \<open>pause\<close>, \<open>toggleStartPause\<close>, \<open>step\<close>, \<open>clear\<close>,
  \<open>randomize\<close>, \<open>setSpeed\<close> and \<open>toggleCell\<close>: the engine is running exactly when
  it holds a timer handle; the timers armed are exactly the one with that handle, so at
  most one; \<open>start\<close> on a running engine changes nothing; and any further operation
  leaves the generation as it is, except \<open>step\<close>, which adds 1, and \<open>clear\<close> and
  \<open>randomize\<close>, which set it to 0.
\<close>

theorem reachable_timer_and_generation:
  assumes "e = run ops (snd (constructor n))"
  shows "(isRunning e \<longleftrightarrow> intervalId e \<noteq> None) \<and>
         map fst (armed e) = (case intervalId e of None \<Rightarrow> [] | Some h \<Rightarrow> [h]) \<and>
         length (armed e) \<le> 1 \<and>
         (isRunning e \<longrightarrow> start e = (None, e)) \<and>
         generation (snd (exec x e)) =
           (case x of Step \<Rightarrow> generation e + 1 | Clear \<Rightarrow> 0 | Randomize below \<Rightarrow> 0
            | _ \<Rightarrow> generation e)"
proof -
  have inv: "valid e" "timer_ok e"
    using run_invariant [of "snd (constructor n)" ops] constructor_invariant [of n] assms
    by simp_all
  have handles: "map fst (armed e) = (case intervalId e of None \<Rightarrow> [] | Some h \<Rightarrow> [h])"
    and running: "isRunning e \<longleftrightarrow> intervalId e \<noteq> None"
    using inv(2) by (auto simp: timer_ok_def split: option.splits)
  from handles have "length (map fst (armed e)) \<le> 1"
    by (simp split: option.splits)
  then have "length (armed e) \<le> 1" by simp
  moreover have "isRunning e \<longrightarrow> start e = (None, e)"
    by (simp add: start_result)
  ultimately show ?thesis
    using handles running generation_exec [OF inv(1), of x] by blast
qed

theorem reachable_timer_and_generation_witness:
  "isRunning busy_engine \<and> intervalId busy_engine = Some 1 \<and>
   map fst (armed busy_engine) = [1] \<and> start busy_engine = (None, busy_engine) \<and>
   generation busy_engine = 1 \<and> generation (snd (exec Step busy_engine)) = 2 \<and>
   generation (snd (exec (SetSpeed 3) busy_engine)) = 1 \<and>
   generation (snd (exec Clear busy_engine)) = 0"
proof -
  have r: "isRunning busy_engine" and i: "intervalId busy_engine = Some 1"
    and g: "generation busy_engine = 1"
    by code_simp+
  note t = reachable_timer_and_generation [OF busy_engine_def]
  from t [of Step] r i g have "map fst (armed busy_engine) = [1] \<and>
      start busy_engine = (None, busy_engine) \<and> generation (snd (exec Step busy_engine)) = 2"
    by simp
  moreover from t [of "SetSpeed 3"] g have "generation (snd (exec (SetSpeed 3) busy_engine)) = 1"
    by simp
  moreover from t [of Clear] have "generation (snd (exec Clear busy_engine)) = 0"
    by simp
  ultimately show ?thesis using r i g by blast
qed

subsection \<open>step is a function of the current grid\<close>

lemma grid_cells_eq_iff:
  "grid_cells n g = grid_cells n g' \<longleftrightarrow>
     (\<forall>row col. 0 \<le> row \<and> row < n \<and> 0 \<le> col \<and> col < n \<longrightarrow> cell_at g row col = cell_at g' row col)"
proof -
  have range: "x \<in> {0..n - 1} \<longleftrightarrow> 0 \<le> x \<and> x < n" for x :: int
    by auto
  show ?thesis
    by (simp add: grid_cells_def Ball_def range) blast
qed

lemma decide_cong:
  assumes size: "gridSize e1 = gridSize e2"
    and cells: "\<forall>row col. 0 \<le> row \<and> row < gridSize e1 \<and> 0 \<le> col \<and> col < gridSize e1 \<longrightarrow>
                  cell_at (currentGrid e1) row col = cell_at (currentGrid e2) row col"
    and pos: "0 \<le> row" "row < gridSize e1" "0 \<le> col" "col < gridSize e1"
  shows "decide e1 row col = decide e2 row col"
proof -
  have alive: "alive e1 r c = alive e2 r c" if "in_bounds e1 r c" for r c
    using that cells by (simp add: alive_def in_bounds_def)
  have "(in_bounds e1 r c \<and> alive e1 r c) = (in_bounds e2 r c \<and> alive e2 r c)" for r c
    using alive [of r c] size by (auto simp: in_bounds_def)
  then have "live_adjacent e1 row col = live_adjacent e2 row col"
    by (simp add: live_adjacent_def)
  moreover have "alive e1 row col = alive e2 row col"
    using pos by (intro alive) (simp add: in_bounds_def)
  ultimately show ?thesis
    by (simp add: decide_def)
qed

text \<open>
  Claim C3. Two valid engines of the same size whose current grids have the same
  contents both complete \<open>step\<close> normally, and their current grids have the same
  contents afterwards, whatever their scratch buffers, generations, speeds and timers.
\<close>

theorem step_deterministic:
  assumes "valid e1" and "valid e2" and "gridSize e1 = gridSize e2"
    and "grid_cells (gridSize e1) (currentGrid e1) = grid_cells (gridSize e2) (currentGrid e2)"
  shows "fst (step e1) = None \<and> fst (step e2) = None \<and>
         grid_cells (gridSize e1) (currentGrid (snd (step e1))) =
         grid_cells (gridSize e2) (currentGrid (snd (step e2)))"
proof -
  let ?n = "gridSize e1"
  have cells: "\<forall>row col. 0 \<le> row \<and> row < ?n \<and> 0 \<le> col \<and> col < ?n \<longrightarrow>
                  cell_at (currentGrid e1) row col = cell_at (currentGrid e2) row col"
    using assms(3,4) by (simp add: grid_cells_eq_iff)
  have "cell_at (fill_rows ?n ?n (decide e1) (nextGrid e1)) row col =
        cell_at (fill_rows ?n ?n (decide e2) (nextGrid e2)) row col"
    if "0 \<le> row" "row < ?n" "0 \<le> col" "col < ?n" for row col
    using that assms(1-3) decide_cong [OF assms(3) cells that]
    by (simp add: valid_def cell_at_fill_rows)
  then have "grid_cells ?n (fill_rows ?n ?n (decide e1) (nextGrid e1)) =
             grid_cells ?n (fill_rows ?n ?n (decide e2) (nextGrid e2))"
    by (simp add: grid_cells_eq_iff)
  then show ?thesis
    using assms(3) by (simp add: step_result [OF assms(1)] step_result [OF assms(2)])
qed

theorem step_deterministic_witness:
  "valid blinker_engine \<and> valid (snd (setSpeed 9 (snd (step (snd (step blinker_engine)))))) \<and>
   grid_cells 3 (currentGrid blinker_engine) =
     grid_cells 3 (currentGrid (snd (setSpeed 9 (snd (step (snd (step blinker_engine))))))) \<and>
   generation blinker_engine \<noteq> generation (snd (setSpeed 9 (snd (step (snd (step blinker_engine)))))) \<and>
   grid_cells 3 (currentGrid (snd (step blinker_engine))) =
     grid_cells 3 (currentGrid (snd (step (snd (setSpeed 9 (snd (step (snd (step blinker_engine)))))))))"
proof -
  let ?other = "snd (setSpeed 9 (snd (step (snd (step blinker_engine)))))"
  have v1: "valid blinker_engine" and v2: "valid ?other"
    and n1: "gridSize blinker_engine = 3" and n2: "gridSize ?other = 3"
    and g: "generation blinker_engine \<noteq> generation ?other"
    by code_simp+
  have c: "grid_cells 3 (currentGrid blinker_engine) = grid_cells 3 (currentGrid ?other)"
    by code_simp
  from step_deterministic [OF v1 v2] n1 n2 c
  have "grid_cells 3 (currentGrid (snd (step blinker_engine))) =
        grid_cells 3 (currentGrid (snd (step ?other)))"
    by simp
  with v1 v2 c g show ?thesis by blast
qed

subsection \<open>toggleCell and the bounds of the grid\<close>

lemma gridSize_exec:
  assumes "valid e"
  shows "gridSize (snd (exec x e)) = gridSize e"
  using assms
  by (cases x)
    (auto simp: start_result pause_result toggleStartPause_def step_result clear_result
      randomize_result setSpeed_result toggleCell_result split: option.splits)

text \<open>No operation creates a row outside the grid.\<close>

lemma rows_exec:
  assumes v: "valid e"
    and rows: "\<forall>row. \<not> (0 \<le> row \<and> row < gridSize e) \<longrightarrow>
                 currentGrid e row = None \<and> nextGrid e row = None"
  shows "\<forall>row. \<not> (0 \<le> row \<and> row < gridSize e) \<longrightarrow>
           currentGrid (snd (exec x e)) row = None \<and> nextGrid (snd (exec x e)) row = None"
proof (cases x)
  case Step
  with assms show ?thesis
    by (simp add: step_result fill_rows_def)
next
  case Clear
  then show ?thesis
    by (simp add: clear_result dead_grid_def)
next
  case (Randomize below)
  with assms show ?thesis
    by (simp add: randomize_result pause_grids fill_rows_def)
next
  case (ToggleCell row col)
  with rows show ?thesis
    by (auto simp: toggleCell_result split: option.splits)
qed (use rows in \<open>auto simp: start_result pause_result toggleStartPause_def setSpeed_result\<close>)

lemma run_rows:
  assumes "valid e"
    and "\<forall>row. \<not> (0 \<le> row \<and> row < gridSize e) \<longrightarrow>
           currentGrid e row = None \<and> nextGrid e row = None"
  shows "gridSize (run ops e) = gridSize e \<and>
         (\<forall>row. \<not> (0 \<le> row \<and> row < gridSize e) \<longrightarrow>
            currentGrid (run ops e) row = None \<and> nextGrid (run ops e) row = None)"
  using assms
proof (induction ops arbitrary: e)
  case Nil
  then show ?case by simp
next
  case (Cons x xs)
  have "valid (snd (exec x e))"
    using Cons.prems(1) by (rule valid_exec)
  moreover have "\<forall>row. \<not> (0 \<le> row \<and> row < gridSize (snd (exec x e))) \<longrightarrow>
      currentGrid (snd (exec x e)) row = None \<and> nextGrid (snd (exec x e)) row = None"
    using rows_exec [OF Cons.prems] by (simp add: gridSize_exec [OF Cons.prems(1)])
  ultimately show ?case
    using Cons.IH [of "snd (exec x e)"] by (simp add: gridSize_exec [OF Cons.prems(1)])
qed

lemma reachable_rows:
  assumes "e = run ops (snd (constructor n))"
  shows "valid e \<and> gridSize e = n \<and>
         (\<forall>row. \<not> (0 \<le> row \<and> row < n) \<longrightarrow> currentGrid e row = None \<and> nextGrid e row = None)"
proof -
  let ?e0 = "snd (constructor n)"
  have "valid ?e0" by (simp add: constructor_invariant)
  moreover have "gridSize ?e0 = n"
    by (simp add: constructor_result)
  moreover have "\<forall>row. \<not> (0 \<le> row \<and> row < gridSize ?e0) \<longrightarrow>
           currentGrid ?e0 row = None \<and> nextGrid ?e0 row = None"
    by (simp add: constructor_result dead_grid_def)
  ultimately show ?thesis
    using run_rows [of ?e0 ops] run_invariant [of ?e0 ops] constructor_invariant [of n] assms
    by simp
qed

lemma toggleCell_written:
  assumes r: "currentGrid e row = Some r"
  shows "\<exists>e'. toggleCell row col e = (if in_bounds e row col then None else Some TypeError, e') \<and>
            cell_at (currentGrid e') row col = Some (\<not> alive e row col) \<and>
            (\<forall>row' col'. (row', col') \<noteq> (row, col) \<longrightarrow>
               cell_at (currentGrid e') row' col' = cell_at (currentGrid e) row' col') \<and>
            e'\<lparr>currentGrid := currentGrid e\<rparr> = e"
  by (simp add: toggleCell_result r cell_at_upd [where g = "currentGrid e", OF r] alive_def)
    (simp add: cell_at_def r)

text \<open>
  Claim C6, as the code has it. \<open>toggleCell\<close> checks no bounds; in every state an
  engine of size \<open>n\<close> reaches from its construction: inside the grid it returns
  normally, having flipped that one cell of the current grid and changed nothing else;
  with a row outside the grid it throws a TypeError and leaves the engine as it was;
  with a row inside and a column outside the grid it stores the negation of what it read
  (\<open>true\<close> for a missing cell) at that index of the row, changes nothing else, and
  throws a TypeError when it updates the display.
\<close>

theorem toggleCell_cases:
  assumes "e = run ops (snd (constructor n))"
  shows "(0 \<le> row \<and> row < n \<and> 0 \<le> col \<and> col < n \<longrightarrow>
          (\<exists>e'. toggleCell row col e = (None, e') \<and>
            cell_at (currentGrid e') row col = Some (\<not> alive e row col) \<and>
            (\<forall>row' col'. (row', col') \<noteq> (row, col) \<longrightarrow>
               cell_at (currentGrid e') row' col' = cell_at (currentGrid e) row' col') \<and>
            e'\<lparr>currentGrid := currentGrid e\<rparr> = e)) \<and>
         (\<not> (0 \<le> row \<and> row < n) \<longrightarrow> toggleCell row col e = (Some TypeError, e)) \<and>
         (0 \<le> row \<and> row < n \<and> \<not> (0 \<le> col \<and> col < n) \<longrightarrow>
          (\<exists>e'. toggleCell row col e = (Some TypeError, e') \<and>
            cell_at (currentGrid e') row col = Some (\<not> alive e row col) \<and>
            (\<forall>row' col'. (row', col') \<noteq> (row, col) \<longrightarrow>
               cell_at (currentGrid e') row' col' = cell_at (currentGrid e) row' col') \<and>
            e'\<lparr>currentGrid := currentGrid e\<rparr> = e))"
proof -
  from reachable_rows [OF assms]
  have v: "valid e" and n: "gridSize e = n"
    and absent: "\<forall>row. \<not> (0 \<le> row \<and> row < n) \<longrightarrow> currentGrid e row = None"
    by simp_all
  have present: "\<exists>r. currentGrid e row = Some r" if "0 \<le> row" "row < n"
    using v that n by (auto simp: valid_def grid_ok_iff)
  have bounds: "in_bounds e row col \<longleftrightarrow> 0 \<le> row \<and> row < n \<and> 0 \<le> col \<and> col < n"
    by (simp add: in_bounds_def n)
  have inside: "0 \<le> row \<and> row < n \<and> 0 \<le> col \<and> col < n \<longrightarrow>
          (\<exists>e'. toggleCell row col e = (None, e') \<and>
            cell_at (currentGrid e') row col = Some (\<not> alive e row col) \<and>
            (\<forall>row' col'. (row', col') \<noteq> (row, col) \<longrightarrow>
               cell_at (currentGrid e') row' col' = cell_at (currentGrid e) row' col') \<and>
            e'\<lparr>currentGrid := currentGrid e\<rparr> = e)"
  proof
    assume b: "0 \<le> row \<and> row < n \<and> 0 \<le> col \<and> col < n"
    then obtain r where "currentGrid e row = Some r" using present by blast
    from toggleCell_written [OF this, of col] b bounds show "\<exists>e'. toggleCell row col e = (None, e') \<and>
            cell_at (currentGrid e') row col = Some (\<not> alive e row col) \<and>
            (\<forall>row' col'. (row', col') \<noteq> (row, col) \<longrightarrow>
               cell_at (currentGrid e') row' col' = cell_at (currentGrid e) row' col') \<and>
            e'\<lparr>currentGrid := currentGrid e\<rparr> = e"
      by simp
  qed
  have missing: "\<not> (0 \<le> row \<and> row < n) \<longrightarrow> toggleCell row col e = (Some TypeError, e)"
    using absent by (simp add: toggleCell_result)
  have outside: "0 \<le> row \<and> row < n \<and> \<not> (0 \<le> col \<and> col < n) \<longrightarrow>
          (\<exists>e'. toggleCell row col e = (Some TypeError, e') \<and>
            cell_at (currentGrid e') row col = Some (\<not> alive e row col) \<and>
            (\<forall>row' col'. (row', col') \<noteq> (row, col) \<longrightarrow>
               cell_at (currentGrid e') row' col' = cell_at (currentGrid e) row' col') \<and>
            e'\<lparr>currentGrid := currentGrid e\<rparr> = e)"
  proof
    assume b: "0 \<le> row \<and> row < n \<and> \<not> (0 \<le> col \<and> col < n)"
    then obtain r where "currentGrid e row = Some r" using present by blast
    from toggleCell_written [OF this, of col] b bounds show "\<exists>e'. toggleCell row col e = (Some TypeError, e') \<and>
            cell_at (currentGrid e') row col = Some (\<not> alive e row col) \<and>
            (\<forall>row' col'. (row', col') \<noteq> (row, col) \<longrightarrow>
               cell_at (currentGrid e') row' col' = cell_at (currentGrid e) row' col') \<and>
            e'\<lparr>currentGrid := currentGrid e\<rparr> = e"
      by simp
  qed
  from inside missing outside show ?thesis by blast
qed

theorem toggleCell_cases_witness:
  "\<not> alive busy_engine 0 0 \<and> fst (toggleCell 0 0 busy_engine) = None \<and>
   cell_at (currentGrid (snd (toggleCell 0 0 busy_engine))) 0 0 = Some True \<and>
   toggleCell 5 0 busy_engine = (Some TypeError, busy_engine) \<and>
   fst (toggleCell 0 5 busy_engine) = Some TypeError \<and>
   cell_at (currentGrid (snd (toggleCell 0 5 busy_engine))) 0 5 = Some True \<and>
   cell_at (currentGrid (snd (toggleCell 0 5 busy_engine))) 0 1 = cell_at (currentGrid busy_engine) 0 1"
proof -
  have d: "\<not> alive busy_engine 0 0" and u: "\<not> alive busy_engine 0 5"
    by code_simp+
  note t = toggleCell_cases [OF busy_engine_def]
  from t [of 0 0] d
  have "fst (toggleCell 0 0 busy_engine) = None \<and>
        cell_at (currentGrid (snd (toggleCell 0 0 busy_engine))) 0 0 = Some True"
    by auto
  moreover from t [of 5 0]
  have "toggleCell 5 0 busy_engine = (Some TypeError, busy_engine)"
    by simp
  moreover from t [of 0 5] u
  have "fst (toggleCell 0 5 busy_engine) = Some TypeError \<and>
        cell_at (currentGrid (snd (toggleCell 0 5 busy_engine))) 0 5 = Some True \<and>
        cell_at (currentGrid (snd (toggleCell 0 5 busy_engine))) 0 1 = cell_at (currentGrid busy_engine) 0 1"
    by auto
  ultimately show ?thesis using d by blast
qed

theorem toggleCell_out_of_bounds_counterexample:
  "fst (toggleCell 0 5 (snd (constructor 2))) = Some TypeError \<and>
   cell_at (currentGrid (snd (constructor 2))) 0 5 = None \<and>
   cell_at (currentGrid (snd (toggleCell 0 5 (snd (constructor 2))))) 0 5 = Some True"
  by code_simp

subsection \<open>The fixtures of the specification, by evaluation\<close>

lemma blinker_turns:
  "fst (step blinker_engine) = None \<and>
   grid_cells 3 (currentGrid blinker_engine) =
     [[Some False, Some True, Some False],
      [Some False, Some True, Some False],
      [Some False, Some True, Some False]] \<and>
   grid_cells 3 (currentGrid (snd (step blinker_engine))) =
     [[Some False, Some False, Some False],
      [Some True, Some True, Some True],
      [Some False, Some False, Some False]] \<and>
   generation (snd (step blinker_engine)) = 1"
  by code_simp

lemma block_is_still:
  "fst (step block_engine) = None \<and> countLiveCells block_engine = Inr 4 \<and>
   grid_cells 4 (currentGrid (snd (step block_engine))) = grid_cells 4 (currentGrid block_engine)"
  by code_simp

lemma lone_cell_dies:
  "countLiveCells (snd (toggleCell 1 1 (snd (constructor 3)))) = Inr 1 \<and>
   countLiveCells (snd (step (snd (toggleCell 1 1 (snd (constructor 3)))))) = Inr 0"
  by code_simp

lemma corner_has_three_neighbours:
  "countLiveNeighbors (snd (randomize (\<lambda>row col. True) (snd (constructor 3)))) 2 2 = Inr 3 \<and>
   countLiveNeighbors (snd (randomize (\<lambda>row col. True) (snd (constructor 3)))) 1 1 = Inr 8 \<and>
   countLiveNeighbors (snd (randomize (\<lambda>row col. True) (snd (constructor 3)))) 0 1 = Inr 5"
  by code_simp

lemma step_throws_without_rows:
  "fst (step ((snd (constructor 2))\<lparr>nextGrid := Map.empty\<rparr>)) = Some TypeError \<and>
   generation (snd (step ((snd (constructor 2))\<lparr>nextGrid := Map.empty\<rparr>))) = 0"
  by code_simp

end
